theory Spec2Isabelle
  imports Complex_Main "HOL-Library.AList" "HOL-Library.Log_Nat"
begin

section \<open>The item-association recommender of \<open>models/recommender.py\<close>\<close>

text \<open>
  The class \<open>MenuRecommender\<close> is embedded with explicit state passing: every method takes
  the engine and returns its outcome together with the engine after the call, also when the
  outcome is a raised exception (a Python exception does not undo assignments already made).

  Python's insertion-ordered \<open>dict\<close> is an association list in insertion order, whose keys
  are pairwise distinct in every value the program builds.

  Python's \<open>float\<close> is the IEEE 754 binary64 format. A finite double is taken as the
  rational number it denotes, and every float operation of the queries returns the exact
  result rounded to the nearest double, ties to the even significand (\<open>fl\<close> below).
  The popularity table is kept as the exact quotients \<open>count / total\<close>; the double that
  Python stores for a quotient is its nearest double, and this is what the queries read
  (\<open>floats\<close> below). Overflow to infinity, which needs a magnitude of \<open>2 ^ 1024\<close>, is not
  modelled.
\<close>

subsection \<open>Data model\<close>

type_synonym item = int

type_synonym 'v pydict = "(item \<times> 'v) list"

datatype error = ValueError | ZeroDivisionError | TypeError | AttributeError

text \<open>The attributes set by \<open>__init__\<close>; \<open>None\<close> is \<open>None\<close>. The attribute
  \<open>item_features\<close> is never read or written after \<open>__init__\<close> and is left out.\<close>

record engine =
  item_cooccurrence :: "int pydict pydict option"
  item_popularity :: "rat pydict option"
  is_fitted :: bool

definition init :: engine where
  "init = \<lparr>item_cooccurrence = None, item_popularity = None, is_fitted = False\<rparr>"

record summary =
  num_transactions :: int
  num_items :: int
  avg_items_per_transaction :: rat

record recommendation =
  menu_item_id :: item
  cooccurrence_count :: int
  popularity_score :: rat
  recommendation_score :: rat

record item_bundle =
  items :: "item list"
  support :: rat
  count :: int

record opportunity = recommendation +
  cross_sell_potential :: rat
  recommendation_type :: string

record order_rec =
  order_item :: item
  score :: rat
  reason :: string

record popular_item =
  pop_item :: item
  pop_score :: rat

record insights =
  total_unique_items :: int
  top_popular_items :: "popular_item list"
  avg_popularity :: "rat option"
  median_popularity :: "rat option"
  std_popularity :: "real option"

subsection \<open>Python primitives\<close>

text \<open>\<open>d[k]\<close> on a \<open>defaultdict\<close>: a missing key is inserted with the default value
  (at the end of the insertion order) and the default is returned.\<close>

definition dd_getitem :: "'v \<Rightarrow> item \<Rightarrow> 'v pydict \<Rightarrow> 'v \<times> 'v pydict" where
  "dd_getitem dflt k d =
     (case map_of d k of
        Some v \<Rightarrow> (v, d)
      | None \<Rightarrow> (dflt, d @ [(k, dflt)]))"

text \<open>\<open>d[k] += x\<close> on a \<open>defaultdict(int)\<close>: read with insertion, then store.\<close>

definition dd_add :: "item \<Rightarrow> 'a \<Rightarrow> ('a::{zero,plus}) pydict \<Rightarrow> 'a pydict" where
  "dd_add k x d = (case dd_getitem 0 k d of (n, d1) \<Rightarrow> AList.update k (n + x) d1)"

definition dd_incr :: "item \<Rightarrow> int pydict \<Rightarrow> int pydict" where
  "dd_incr k d = dd_add k 1 d"

text \<open>\<open>d.get(k, 0)\<close>.\<close>

definition get0 :: "('a::zero) pydict \<Rightarrow> item \<Rightarrow> 'a" where
  "get0 d k = (case map_of d k of None \<Rightarrow> 0 | Some v \<Rightarrow> v)"

text \<open>\<open>a / b\<close> on numbers.\<close>

definition truediv :: "rat \<Rightarrow> rat \<Rightarrow> error + rat" where
  "truediv a b = (if b = 0 then Inl ZeroDivisionError else Inr (a / b))"

text \<open>\<open>xs[:k]\<close>: a negative \<open>k\<close> counts from the end.\<close>

definition slice_to :: "int \<Rightarrow> 'a list \<Rightarrow> 'a list" where
  "slice_to k xs = (if 0 \<le> k then take (nat k) xs else take (nat (int (length xs) + k)) xs)"

text \<open>\<open>sorted(xs, key=f, reverse=True)\<close>: a stable sort into non-increasing key order
  (elements with equal keys keep their original order).\<close>

definition sorted_desc :: "('a \<Rightarrow> 'k::{linorder,uminus}) \<Rightarrow> 'a list \<Rightarrow> 'a list" where
  "sorted_desc f xs = sort_key (\<lambda>x. - f x) xs"

text \<open>Rounding to the nearest integer, ties to the even one.\<close>

definition round_half_even :: "rat \<Rightarrow> int" where
  "round_half_even x =
     (let f = \<lfloor>x\<rfloor>; d = x - of_int f in
      if d < 1 / 2 then f
      else if 1 / 2 < d then f + 1
      else if even f then f else f + 1)"

text \<open>Powers of two with an integer exponent, and the exponent \<open>e\<close> of a non-zero
  rational: \<open>2 ^ e \<le> \<bar>x\<bar> < 2 ^ (e + 1)\<close>.\<close>

definition pow2 :: "int \<Rightarrow> rat" where
  "pow2 e = (if 0 \<le> e then 2 ^ nat e else 1 / 2 ^ nat (- e))"

definition ilog2 :: "rat \<Rightarrow> int" where
  "ilog2 x =
     (let a = \<bar>x\<bar> in
      if 1 \<le> a then bitlen \<lfloor>a\<rfloor> - 1
      else let e0 = 1 - bitlen \<lfloor>1 / a\<rfloor> in
           if pow2 e0 \<le> a then e0 else e0 - 1)"

text \<open>The double nearest to a rational: the spacing of the doubles around \<open>x\<close> is
  \<open>2 ^ (e - 52)\<close> for the exponent \<open>e\<close> of \<open>x\<close> (a significand of 53 bits), and
  \<open>2 ^ (- 1074)\<close> in the subnormal range; \<open>x\<close> is rounded to the nearest multiple of
  the spacing, a tie going to the even multiple.\<close>

definition fl :: "rat \<Rightarrow> rat" where
  "fl x =
     (if x = 0 then 0
      else let q = pow2 (max (ilog2 x - 52) (- 1074)) in
           of_int (round_half_even (x / q)) * q)"

text \<open>\<open>a * b\<close> and \<open>a + b\<close> on floats, the conversion of an \<open>int\<close> operand to
  \<open>float\<close>, and \<open>a / b\<close> on two \<open>int\<close>s (the correctly rounded quotient).\<close>

definition fmul :: "rat \<Rightarrow> rat \<Rightarrow> rat" where
  "fmul a b = fl (a * b)"

definition fadd :: "rat \<Rightarrow> rat \<Rightarrow> rat" where
  "fadd a b = fl (a + b)"

definition float_of_int :: "int \<Rightarrow> rat" where
  "float_of_int n = fl (of_int n)"

definition int_truediv :: "int \<Rightarrow> int \<Rightarrow> error + rat" where
  "int_truediv a b = (if b = 0 then Inl ZeroDivisionError else Inr (fl (of_int a / of_int b)))"

text \<open>\<open>round(x, n)\<close> on a float: the exact value of the double \<open>x\<close> is rounded to
  \<open>n\<close> decimals, ties to even, and the result is the double nearest to that decimal.\<close>

definition decimal_round :: "nat \<Rightarrow> rat \<Rightarrow> rat" where
  "decimal_round n x = of_int (round_half_even (x * 10 ^ n)) / 10 ^ n"

definition py_round :: "nat \<Rightarrow> rat \<Rightarrow> rat" where
  "py_round n x = fl (decimal_round n x)"

text \<open>\<open>d[k] += x\<close> on a \<open>defaultdict(float)\<close>.\<close>

definition dd_fadd :: "item \<Rightarrow> rat \<Rightarrow> rat pydict \<Rightarrow> rat pydict" where
  "dd_fadd k x d = (case dd_getitem 0 k d of (y, d1) \<Rightarrow> AList.update k (fadd y x) d1)"

text \<open>The popularity table as Python holds it: each quotient as its nearest double.\<close>

definition floats :: "rat pydict \<Rightarrow> rat pydict" where
  "floats pop = map (\<lambda>p. (fst p, fl (snd p))) pop"

text \<open>\<open>itertools.combinations(xs, 2)\<close>: the pairs of positions \<open>i < j\<close>, in lexicographic
  order of the positions.\<close>

fun combinations2 :: "'a list \<Rightarrow> ('a \<times> 'a) list" where
  "combinations2 [] = []"
| "combinations2 (x # xs) = map (Pair x) xs @ combinations2 xs"

subsection \<open>\<open>train\<close>\<close>

text \<open>\<open>self.item_cooccurrence[item1][item2] += 1\<close> on the \<open>defaultdict\<close> of
  \<open>defaultdict(int)\<close>: the outer read inserts an empty inner table for a new \<open>item1\<close>, the
  inner table is then incremented in place.\<close>

definition cooc_incr :: "item \<Rightarrow> item \<Rightarrow> int pydict pydict \<Rightarrow> int pydict pydict" where
  "cooc_incr item1 item2 c =
     (case dd_getitem [] item1 c of (inner, c1) \<Rightarrow> AList.update item1 (dd_incr item2 inner) c1)"

text \<open>The body of the loop over the transactions, on the pair of the co-occurrence table
  and \<open>item_counts\<close>.\<close>

definition count_items :: "item list \<Rightarrow> int pydict \<Rightarrow> int pydict" where
  "count_items transaction ic = fold dd_incr transaction ic"

definition count_pairs :: "item list \<Rightarrow> int pydict pydict \<Rightarrow> int pydict pydict" where
  "count_pairs transaction c =
     fold (\<lambda>(item1, item2) c. cooc_incr item2 item1 (cooc_incr item1 item2 c))
          (combinations2 transaction) c"

definition train_loop ::
  "item list list \<Rightarrow> int pydict pydict \<times> int pydict \<Rightarrow> int pydict pydict \<times> int pydict" where
  "train_loop transactions st =
     fold (\<lambda>transaction (c, ic). (count_pairs transaction c, count_items transaction ic))
          transactions st"

text \<open>The dictionary comprehension \<open>{item: count / total_transactions for ...}\<close>; it raises
  at the first division by zero.\<close>

fun popularity_of :: "int pydict \<Rightarrow> int \<Rightarrow> error + rat pydict" where
  "popularity_of [] n = Inr []"
| "popularity_of ((item, cnt) # rest) n =
     (case truediv (of_int cnt) (of_int n) of
        Inl e \<Rightarrow> Inl e
      | Inr q \<Rightarrow>
          (case popularity_of rest n of
             Inl e \<Rightarrow> Inl e
           | Inr ps \<Rightarrow> Inr ((item, q) # ps)))"

definition train :: "item list list \<Rightarrow> engine \<Rightarrow> (error + summary) \<times> engine" where
  "train transactions s =
     (let (cooc, item_counts) = train_loop transactions ([], []);
          s1 = s\<lparr>item_cooccurrence := Some cooc\<rparr>;
          total_transactions = int (length transactions)
      in case popularity_of item_counts total_transactions of
           Inl e \<Rightarrow> (Inl e, s1)
         | Inr pop \<Rightarrow>
             let s2 = s1\<lparr>item_popularity := Some pop, is_fitted := True\<rparr> in
             (case truediv (of_int (sum_list (map (\<lambda>t. int (length t)) transactions)))
                           (of_int total_transactions) of
                Inl e \<Rightarrow> (Inl e, s2)
              | Inr avg \<Rightarrow>
                  (Inr \<lparr>num_transactions = total_transactions,
                        num_items = int (length pop),
                        avg_items_per_transaction = avg\<rparr>, s2)))"

text \<open>The count of a pair, read with an absent key as zero (the spec's \<open>count(a,b)\<close>).\<close>

definition cooc_count :: "int pydict pydict \<Rightarrow> item \<Rightarrow> item \<Rightarrow> int" where
  "cooc_count c a b = (case map_of c a of None \<Rightarrow> 0 | Some d \<Rightarrow> get0 d b)"

subsection \<open>\<open>recommend_related_items\<close>\<close>

text \<open>The body of the loop over the chosen partners, for the pair \<open>p\<close> of \<open>item_id\<close> and
  \<open>cooccurrence_count\<close>. An item missing from the popularity table has the \<open>int\<close>
  popularity 0 of \<open>.get(item_id, 0)\<close>; its score is then an \<open>int\<close>, which \<open>round\<close> returns
  unchanged.\<close>

definition related_rec :: "rat pydict \<Rightarrow> item \<times> int \<Rightarrow> recommendation" where
  "related_rec pop p =
     \<lparr>menu_item_id = fst p,
      cooccurrence_count = snd p,
      popularity_score = get0 pop (fst p),
      recommendation_score =
        (case map_of pop (fst p) of
           None \<Rightarrow> of_int (snd p)
         | Some pp \<Rightarrow> py_round 3 (fadd (float_of_int (snd p)) (fmul pp 100)))\<rparr>"

definition recommend_related_items ::
  "item \<Rightarrow> int \<Rightarrow> int \<Rightarrow> engine \<Rightarrow> (error + recommendation list) \<times> engine" where
  "recommend_related_items item top_k min_support s =
     (if \<not> is_fitted s then (Inl ValueError, s)
      else case item_cooccurrence s of
        None \<Rightarrow> (Inl TypeError, s)
      | Some cooc \<Rightarrow>
          if map_of cooc item = None then (Inr [], s)
          else
            let (related_items, cooc1) = dd_getitem [] item cooc;
                s1 = s\<lparr>item_cooccurrence := Some cooc1\<rparr>;
                filtered = filter (\<lambda>(k, v). min_support \<le> v) related_items;
                sorted_items = sorted_desc snd filtered;
                chosen = slice_to top_k sorted_items
            in (case item_popularity s1 of
                  None \<Rightarrow> (if chosen = [] then (Inr [], s1) else (Inl AttributeError, s1))
                | Some pop \<Rightarrow>
                    (Inr (map (related_rec (floats pop)) chosen), s1)))"

subsection \<open>\<open>get_frequent_bundles\<close>\<close>

text \<open>The comprehension over the pairs \<open>i1 < i2\<close> of the table, in iteration order.\<close>

definition pair_support :: "int pydict pydict \<Rightarrow> ((item \<times> item) \<times> int) list" where
  "pair_support cooc =
     concat (map (\<lambda>(i1, co). map (\<lambda>(i2, cnt). ((i1, i2), cnt))
                                 (filter (\<lambda>(i2, cnt). i1 < i2) co)) cooc)"

text \<open>The loop building the result; the division raises when the total is zero.\<close>

fun bundles_of :: "((item \<times> item) \<times> int) list \<Rightarrow> int \<Rightarrow> error + item_bundle list" where
  "bundles_of [] n = Inr []"
| "bundles_of (((i1, i2), cnt) # rest) n =
     (case int_truediv cnt n of
        Inl e \<Rightarrow> Inl e
      | Inr q \<Rightarrow>
          (case bundles_of rest n of
             Inl e \<Rightarrow> Inl e
           | Inr bs \<Rightarrow> Inr (\<lparr>items = [i1, i2], support = py_round 4 q, count = cnt\<rparr> # bs)))"

text \<open>\<open>min_support\<close> is a float; the threshold is the float product with the total, and
  the comparison of an \<open>int\<close> count with it is exact.\<close>

definition get_frequent_bundles ::
  "rat \<Rightarrow> int \<Rightarrow> engine \<Rightarrow> (error + item_bundle list) \<times> engine" where
  "get_frequent_bundles min_support max_bundle_size s =
     (if \<not> is_fitted s then (Inl ValueError, s)
      else case item_cooccurrence s of
        None \<Rightarrow> (Inl AttributeError, s)
      | Some cooc \<Rightarrow>
          let item_support = pair_support cooc;
              total_cooccurrences = sum_list (map snd item_support);
              min_count = fmul min_support (float_of_int total_cooccurrences);
              retained = filter (\<lambda>(k, v). min_count \<le> of_int v) item_support;
              sorted_bundles = sorted_desc snd retained
          in (case bundles_of sorted_bundles total_cooccurrences of
                Inl e \<Rightarrow> (Inl e, s)
              | Inr bundles \<Rightarrow> (Inr (slice_to 20 bundles), s)))"

subsection \<open>\<open>get_cross_sell_opportunities\<close>\<close>

text \<open>The body of the loop, for the pair \<open>p\<close> of the index \<open>i\<close> and the entry \<open>rec\<close>.\<close>

definition cross_sell_of :: "nat \<times> recommendation \<Rightarrow> opportunity" where
  "cross_sell_of p =
     \<lparr>menu_item_id = menu_item_id (snd p),
      cooccurrence_count = cooccurrence_count (snd p),
      popularity_score = popularity_score (snd p),
      recommendation_score = recommendation_score (snd p),
      cross_sell_potential =
        py_round 3 (fadd (fmul (float_of_int (cooccurrence_count (snd p))) (fl (6 / 10)))
                         (fmul (fmul (popularity_score (snd p)) (float_of_int 1000))
                               (fl (4 / 10)))),
      recommendation_type = (if fst p < 2 then ''upsell'' else ''add-on'')\<rparr>"

definition get_cross_sell_opportunities ::
  "item \<Rightarrow> int \<Rightarrow> engine \<Rightarrow> (error + opportunity list) \<times> engine" where
  "get_cross_sell_opportunities item top_k s =
     (if \<not> is_fitted s then (Inl ValueError, s)
      else case recommend_related_items item (top_k * 2) 3 s of
        (Inl e, s1) \<Rightarrow> (Inl e, s1)
      | (Inr related, s1) \<Rightarrow>
          (Inr (map cross_sell_of (enumerate 0 (slice_to top_k related))), s1))"

subsection \<open>\<open>recommend_items_for_order\<close>\<close>

text \<open>The loop over the items of the order, accumulating into \<open>recommendation_scores\<close>.\<close>

definition add_related :: "item list \<Rightarrow> recommendation list \<Rightarrow> rat pydict \<Rightarrow> rat pydict" where
  "add_related current_order related scores =
     fold (\<lambda>rec sc. if menu_item_id rec \<notin> set current_order
                     then dd_fadd (menu_item_id rec) (recommendation_score rec) sc
                     else sc) related scores"

fun accumulate ::
  "item list \<Rightarrow> item list \<Rightarrow> int \<Rightarrow> rat pydict \<Rightarrow> engine \<Rightarrow> (error + rat pydict) \<times> engine" where
  "accumulate [] current_order top_k scores s = (Inr scores, s)"
| "accumulate (item_id # rest) current_order top_k scores s =
     (case recommend_related_items item_id (top_k * 2) 2 s of
        (Inl e, s1) \<Rightarrow> (Inl e, s1)
      | (Inr related, s1) \<Rightarrow>
          accumulate rest current_order top_k (add_related current_order related scores) s1)"

text \<open>The entries of the two results, for the pair \<open>p\<close> of \<open>item_id\<close> and
  \<open>score\<close>.\<close>

definition popular_rec :: "item \<times> rat \<Rightarrow> order_rec" where
  "popular_rec p = \<lparr>order_item = fst p, score = snd p, reason = ''popular''\<rparr>"

definition together_rec :: "item \<times> rat \<Rightarrow> order_rec" where
  "together_rec p =
     \<lparr>order_item = fst p, score = py_round 3 (snd p),
      reason = ''frequently_bought_together''\<rparr>"

definition recommend_items_for_order ::
  "item list \<Rightarrow> int \<Rightarrow> engine \<Rightarrow> (error + order_rec list) \<times> engine" where
  "recommend_items_for_order current_order top_k s =
     (if \<not> is_fitted s then (Inl ValueError, s)
      else if current_order = [] then
        (case item_popularity s of
           None \<Rightarrow> (Inl AttributeError, s)
         | Some pop \<Rightarrow>
             (Inr (map popular_rec (slice_to top_k (sorted_desc snd (floats pop)))), s))
      else
        (case accumulate current_order current_order top_k [] s of
           (Inl e, s1) \<Rightarrow> (Inl e, s1)
         | (Inr scores, s1) \<Rightarrow>
             (Inr (map together_rec (slice_to top_k (sorted_desc snd scores))), s1)))"

subsection \<open>\<open>get_menu_insights\<close>\<close>

text \<open>\<open>np.mean\<close>, \<open>np.median\<close> and \<open>np.std\<close>, as the exact values of their
  formulas (the rounding of numpy's summation is not modelled); on an empty list they give
  \<open>nan\<close>, which is \<open>None\<close> here.\<close>

definition np_mean :: "rat list \<Rightarrow> rat option" where
  "np_mean xs = (if xs = [] then None else Some (sum_list xs / of_nat (length xs)))"

definition np_median :: "rat list \<Rightarrow> rat option" where
  "np_median xs =
     (if xs = [] then None
      else let ys = sort xs; n = length ys in
        if odd n then Some (ys ! (n div 2))
        else Some ((ys ! (n div 2 - 1) + ys ! (n div 2)) / 2))"

definition np_std :: "rat list \<Rightarrow> real option" where
  "np_std xs =
     (case np_mean xs of
        None \<Rightarrow> None
      | Some m \<Rightarrow>
          Some (sqrt (of_rat (sum_list (map (\<lambda>x. (x - m) ^ 2) xs) / of_nat (length xs)))))"

definition get_menu_insights :: "engine \<Rightarrow> (error + insights) \<times> engine" where
  "get_menu_insights s =
     (if \<not> is_fitted s then (Inl ValueError, s)
      else case item_popularity s of
        None \<Rightarrow> (Inl AttributeError, s)
      | Some pop \<Rightarrow>
          let sorted_items = sorted_desc snd (floats pop);
              popularity_scores = map snd (floats pop)
          in (Inr \<lparr>total_unique_items = int (length pop),
                   top_popular_items =
                     map (\<lambda>(item_id, sc). \<lparr>pop_item = item_id, pop_score = sc\<rparr>)
                         (slice_to 10 sorted_items),
                   avg_popularity = np_mean popularity_scores,
                   median_popularity = np_median popularity_scores,
                   std_popularity = np_std popularity_scores\<rparr>, s))"

subsection \<open>Notions used in the statements and proofs\<close>

text \<open>The inner table of an item, empty when the item has none.\<close>

definition inner_of :: "int pydict pydict \<Rightarrow> item \<Rightarrow> int pydict" where
  "inner_of c a = (case map_of c a of None \<Rightarrow> [] | Some d \<Rightarrow> d)"

definition symmetric :: "int pydict pydict \<Rightarrow> bool" where
  "symmetric c = (\<forall>a b. cooc_count c a b = cooc_count c b a)"

text \<open>The popularity table computed from the transactions: each item of the list of
  occurrence counts, in order of first occurrence, with its count divided by the number of
  transactions.\<close>

definition pop_table :: "item list list \<Rightarrow> rat pydict" where
  "pop_table ts = map (\<lambda>(i, c). (i, of_int c / of_int (int (length ts)))) (fold dd_incr (concat ts) [])"

text \<open>The length of the prefix kept by \<open>xs[:k]\<close> on a list of length \<open>n\<close>.\<close>

definition slice_len :: "int \<Rightarrow> nat \<Rightarrow> nat" where
  "slice_len k n = (if 0 \<le> k then nat k else nat (int n + k))"

text \<open>The invariant of the tables built by \<open>train\<close>: the keys of an inner table are
  distinct and every stored count is at least 1.\<close>

definition inner_ok :: "int pydict \<Rightarrow> bool" where
  "inner_ok d = (distinct (map fst d) \<and> (\<forall>p\<in>set d. 1 \<le> snd p))"

definition table_ok :: "int pydict pydict \<Rightarrow> bool" where
  "table_ok c = (\<forall>e\<in>set c. inner_ok (snd e))"

text \<open>The partners of an item with enough support, in the order the sort by count leaves
  them.\<close>

definition candidates :: "int pydict pydict \<Rightarrow> item \<Rightarrow> int \<Rightarrow> (item \<times> int) list" where
  "candidates c item min_support =
     sorted_desc snd (filter (\<lambda>p. min_support \<le> snd p) (inner_of c item))"



text \<open>The partner items of a table all belong to a given set.\<close>

definition keys_in :: "item set \<Rightarrow> int pydict pydict \<Rightarrow> bool" where
  "keys_in A c = (\<forall>e\<in>set c. fst ` set (snd e) \<subseteq> A)"

section \<open>Properties\<close>

subsection \<open>Training on no transactions\<close>

text \<open>
  C2. Calling \<open>train\<close> with the empty transaction list on a fresh engine: the popularity
  comprehension runs over no items and divides nothing, both tables are assigned and
  \<open>is_fitted\<close> is set, and only then the average of the returned summary divides by the zero
  \<open>total_transactions\<close>. The call ends in \<open>ZeroDivisionError\<close> with the engine fitted on
  empty tables.
\<close>

theorem train_empty_raises_after_commit:
  "train [] init =
     (Inl ZeroDivisionError,
      \<lparr>item_cooccurrence = Some [], item_popularity = Some [], is_fitted = True\<rparr>)"
  by (simp add: train_def train_loop_def init_def truediv_def)

subsection \<open>Retraining\<close>

text \<open>
  C8. \<open>train\<close> is idempotent: a second call with the same transactions returns what the
  first call returned and leaves the engine, with both tables, exactly as the first call
  left it, since the tables are rebuilt from empty ones and not accumulated.
\<close>

theorem train_idempotent:
  "train ts (snd (train ts s)) = train ts s"
  by (simp add: train_def Let_def split: prod.splits sum.splits)

subsection \<open>Queries on an unfitted engine\<close>

text \<open>
  The guard of the queries: on an engine whose \<open>is_fitted\<close> flag is not set, as
  \<open>__init__\<close> leaves it, each of the five queries raises the not-fitted \<open>ValueError\<close>.
\<close>

lemma unfitted_queries_raise:
  assumes "\<not> is_fitted s"
  shows "recommend_related_items item top_k min_support s = (Inl ValueError, s)
       \<and> get_frequent_bundles min_fraction max_size s = (Inl ValueError, s)
       \<and> get_cross_sell_opportunities item top_k s = (Inl ValueError, s)
       \<and> recommend_items_for_order current_order top_k s = (Inl ValueError, s)
       \<and> get_menu_insights s = (Inl ValueError, s)"
  using assms
  by (simp add: recommend_related_items_def get_frequent_bundles_def
      get_cross_sell_opportunities_def recommend_items_for_order_def get_menu_insights_def)

text \<open>
  C5. The guard tests the flag, and the flag is also set by a build that fails: after
  \<open>train([])\<close> has raised \<open>ZeroDivisionError\<close> on a fresh engine no build has succeeded,
  yet none of the five queries raises. Related items, frequent bundles, cross-sell and order
  completion return the empty list and the menu insights return a record of an empty menu.
\<close>

theorem queries_after_failed_train:
  "fst (train [] init) = Inl ZeroDivisionError
   \<and> fst (recommend_related_items 1 5 5 (snd (train [] init))) = Inr []
   \<and> fst (get_frequent_bundles (fl (1 / 100)) 3 (snd (train [] init))) = Inr []
   \<and> fst (get_cross_sell_opportunities 1 5 (snd (train [] init))) = Inr []
   \<and> fst (recommend_items_for_order [] 5 (snd (train [] init))) = Inr []
   \<and> fst (recommend_items_for_order [1, 2] 5 (snd (train [] init))) = Inr []
   \<and> fst (get_menu_insights (snd (train [] init)))
       = Inr \<lparr>total_unique_items = 0, top_popular_items = [], avg_popularity = None,
              median_popularity = None, std_popularity = None\<rparr>"
proof -
  have failed: "train [] init =
     (Inl ZeroDivisionError,
      \<lparr>item_cooccurrence = Some [], item_popularity = Some [], is_fitted = True\<rparr>)"
    by (simp add: train_def train_loop_def init_def truediv_def)
  show ?thesis
    unfolding failed
    by (simp add: recommend_related_items_def get_frequent_bundles_def
        get_cross_sell_opportunities_def recommend_items_for_order_def get_menu_insights_def
        pair_support_def sorted_desc_def slice_to_def floats_def add_related_def np_mean_def
        np_median_def np_std_def)
qed

subsection \<open>Queries leave the engine unchanged\<close>

lemma related_keeps_engine: "snd (recommend_related_items item top_k min_support s) = s"
  by (auto simp: recommend_related_items_def dd_getitem_def Let_def split: option.splits)

lemma bundles_keep_engine: "snd (get_frequent_bundles min_fraction max_size s) = s"
  by (auto simp: get_frequent_bundles_def Let_def split: option.splits sum.splits)

lemma cross_sell_keeps_engine: "snd (get_cross_sell_opportunities item top_k s) = s"
  using related_keeps_engine [of item "top_k * 2" 3 s]
  by (auto simp: get_cross_sell_opportunities_def split: prod.splits sum.splits)

lemma accumulate_keeps_engine: "snd (accumulate xs current_order top_k scores s) = s"
proof (induction xs arbitrary: scores)
  case Nil
  show ?case by simp
next
  case (Cons x xs)
  show ?case
    using related_keeps_engine [of x "top_k * 2" 2 s] Cons.IH
    by (auto split: prod.splits sum.splits)
qed

lemma order_keeps_engine: "snd (recommend_items_for_order current_order top_k s) = s"
  using accumulate_keeps_engine [of current_order current_order top_k "[]" s]
  by (auto simp: recommend_items_for_order_def split: option.splits prod.splits sum.splits)

lemma insights_keep_engine: "snd (get_menu_insights s) = s"
  by (auto simp: get_menu_insights_def Let_def split: option.splits)

text \<open>
  C7. Every query is read-only: the engine after the call (both tables and the fitted flag)
  is the engine before the call, for all arguments, among them items absent from the tables.
  The only \<open>defaultdict\<close> read by subscript, \<open>self.item_cooccurrence[menu_item_id]\<close>, is
  guarded by the membership test, so it never inserts. The statement holds for every engine,
  hence for every fitted one.
\<close>

theorem queries_read_only:
  "snd (recommend_related_items item top_k min_support s) = s
     \<and> snd (get_frequent_bundles min_fraction max_size s) = s
     \<and> snd (get_cross_sell_opportunities item top_k s) = s
     \<and> snd (recommend_items_for_order current_order top_k s) = s
     \<and> snd (get_menu_insights s) = s"
  by (simp add: related_keeps_engine bundles_keep_engine cross_sell_keeps_engine
      order_keeps_engine insights_keep_engine)

subsection \<open>The tables built by \<open>train\<close>\<close>

lemma update_absent: "map_of d k = None \<Longrightarrow> AList.update k v (d @ [(k, w)]) = AList.update k v d"
  by (induction d) (auto split: if_splits)

lemma dd_add_update: "dd_add k x d = AList.update k (get0 d k + x) d"
  by (simp add: dd_add_def dd_getitem_def get0_def update_absent split: option.splits)

lemma map_of_dd_add: "map_of (dd_add k x d) = (map_of d)(k \<mapsto> get0 d k + x)"
  by (simp add: dd_add_update update_conv')

lemma get0_dd_incr: "get0 (dd_incr k d) i = get0 d i + (if i = k then 1 else 0)"
  by (simp add: dd_incr_def get0_def map_of_dd_add)

lemma cooc_incr_update: "cooc_incr a b c = AList.update a (dd_incr b (inner_of c a)) c"
  by (simp add: cooc_incr_def dd_getitem_def inner_of_def update_absent split: option.splits)

lemma cooc_count_inner: "cooc_count c a b = get0 (inner_of c a) b"
  by (simp add: cooc_count_def inner_of_def get0_def split: option.splits)

lemma inner_of_update: "inner_of (AList.update a d c) a' = (if a' = a then d else inner_of c a')"
  by (simp add: inner_of_def update_conv')

lemma cooc_count_incr:
  "cooc_count (cooc_incr x y c) a b = cooc_count c a b + (if a = x \<and> b = y then 1 else 0)"
  by (simp add: cooc_count_inner cooc_incr_update inner_of_update get0_dd_incr)

lemma cooc_count_incr2:
  "cooc_count (cooc_incr y x (cooc_incr x y c)) a b
     = cooc_count c a b + (if a = x \<and> b = y then 1 else 0) + (if a = y \<and> b = x then 1 else 0)"
  by (simp only: cooc_count_incr)

lemma ifs_swap:
  "(if a = x \<and> b = y then 1 else 0) + (if a = y \<and> b = x then 1 else (0::int))
     = (if b = x \<and> a = y then 1 else 0) + (if b = y \<and> a = x then 1 else 0)"
  by (cases "a = x"; cases "b = y"; cases "a = y"; cases "b = x"; simp)

lemma symmetric_step:
  assumes "symmetric c"
  shows "symmetric (cooc_incr y x (cooc_incr x y c))"
proof -
  have swap: "cooc_count c a b = cooc_count c b a" for a b
    using assms unfolding symmetric_def by blast
  have "cooc_count (cooc_incr y x (cooc_incr x y c)) a b
      = cooc_count (cooc_incr y x (cooc_incr x y c)) b a" for a b
  proof -
    have "cooc_count (cooc_incr y x (cooc_incr x y c)) a b
        = cooc_count c a b + ((if a = x \<and> b = y then 1 else 0) + (if a = y \<and> b = x then 1 else 0))"
      by (simp only: cooc_count_incr2 add.assoc)
    also have "\<dots> = cooc_count c b a + ((if b = x \<and> a = y then 1 else 0) + (if b = y \<and> a = x then 1 else 0))"
      by (simp only: swap [of a b] ifs_swap)
    also have "\<dots> = cooc_count (cooc_incr y x (cooc_incr x y c)) b a"
      by (simp only: cooc_count_incr2 add.assoc)
    finally show ?thesis .
  qed
  then show ?thesis
    unfolding symmetric_def by blast
qed

lemma symmetric_fold:
  "symmetric c \<Longrightarrow> symmetric (fold (\<lambda>(item1, item2) c. cooc_incr item2 item1 (cooc_incr item1 item2 c)) ps c)"
proof (induction ps arbitrary: c)
  case Nil
  then show ?case by simp
next
  case (Cons p ps)
  obtain x y where p: "p = (x, y)" by (cases p)
  have "symmetric (cooc_incr y x (cooc_incr x y c))"
    using Cons.prems by (rule symmetric_step)
  then show ?case
    using Cons.IH by (simp add: p)
qed

lemma symmetric_count_pairs: "symmetric c \<Longrightarrow> symmetric (count_pairs t c)"
  unfolding count_pairs_def by (rule symmetric_fold)

lemma train_loop_fst: "fst (train_loop ts (c, ic)) = fold count_pairs ts c"
  unfolding train_loop_def by (induction ts arbitrary: c ic) simp_all

lemma train_loop_snd: "snd (train_loop ts (c, ic)) = fold count_items ts ic"
  unfolding train_loop_def by (induction ts arbitrary: c ic) simp_all

lemma symmetric_fold_pairs: "symmetric c \<Longrightarrow> symmetric (fold count_pairs ts c)"
proof (induction ts arbitrary: c)
  case Nil
  then show ?case by simp
next
  case (Cons t ts)
  have "symmetric (count_pairs t c)"
    using Cons.prems by (rule symmetric_count_pairs)
  then show ?case
    using Cons.IH by simp
qed

lemma train_cooc: "item_cooccurrence (snd (train ts s)) = Some (fold count_pairs ts [])"
  using train_loop_fst [of ts "[]" "[]"]
  by (auto simp: train_def Let_def split: prod.splits sum.splits)

text \<open>
  C4. After \<open>train\<close> on any transaction list the co-occurrence table is symmetric:
  the count of \<open>(a, b)\<close> equals the count of \<open>(b, a)\<close> for all items, absent entries
  counting as zero.
\<close>

theorem train_cooccurrence_symmetric:
  "\<exists>c. item_cooccurrence (snd (train ts s)) = Some c
        \<and> (\<forall>a b. cooc_count c a b = cooc_count c b a)"
proof -
  have "symmetric []"
    unfolding symmetric_def cooc_count_def by simp
  then have "symmetric (fold count_pairs ts [])"
    by (rule symmetric_fold_pairs)
  then show ?thesis
    unfolding train_cooc symmetric_def by blast
qed

subsection \<open>The popularity table\<close>

lemma map_of_dd_incr: "map_of (dd_incr k d) = (map_of d)(k \<mapsto> get0 d k + 1)"
  by (simp add: dd_incr_def map_of_dd_add)

lemma map_of_fold_incr:
  "map_of (fold dd_incr xs d) i =
     (if i \<in> set xs then Some (get0 d i + int (count_list xs i)) else map_of d i)"
proof (induction xs arbitrary: d)
  case Nil
  show ?case by simp
next
  case (Cons x xs)
  have step: "map_of (dd_incr x d) i = (if i = x then Some (get0 d x + 1) else map_of d i)"
    by (simp add: map_of_dd_incr)
  have g: "get0 (dd_incr x d) i = get0 d i + (if i = x then 1 else 0)"
    by (rule get0_dd_incr)
  show ?case
  proof (cases "i = x")
    case True
    then show ?thesis
      using Cons.IH [of "dd_incr x d"] step g by simp
  next
    case False
    then show ?thesis
      using Cons.IH [of "dd_incr x d"] step g by simp
  qed
qed

lemma fold_count_items: "fold count_items ts ic = fold dd_incr (concat ts) ic"
  by (induction ts arbitrary: ic) (simp_all add: count_items_def)

lemma popularity_of_nonzero:
  "n \<noteq> 0 \<Longrightarrow> popularity_of ic n = Inr (map (\<lambda>(i, c). (i, of_int c / of_int n)) ic)"
  by (induction ic n rule: popularity_of.induct) (simp_all add: truediv_def)

lemma popularity_of_Nil: "popularity_of [] n = Inr (map (\<lambda>(i, c). (i, of_int c / of_int n)) [])"
  by simp

lemma popularity_of_train:
  "popularity_of (fold count_items ts []) (int (length ts)) = Inr (pop_table ts)"
proof (cases "ts = []")
  case True
  then show ?thesis by (simp add: pop_table_def)
next
  case False
  then have "int (length ts) \<noteq> 0" by simp
  then show ?thesis
    unfolding pop_table_def fold_count_items by (rule popularity_of_nonzero)
qed

lemma train_popularity: "item_popularity (snd (train ts s)) = Some (pop_table ts)"
  using train_loop_snd [of ts "[]" "[]"] popularity_of_train [of ts]
  by (auto simp: train_def Let_def split: prod.splits sum.splits)

lemma train_fitted: "is_fitted (snd (train ts s))"
  using train_loop_snd [of ts "[]" "[]"] popularity_of_train [of ts]
  by (auto simp: train_def Let_def split: prod.splits sum.splits)

lemma map_of_pop_table:
  "map_of (pop_table ts) i =
     (if i \<in> set (concat ts)
      then Some (of_nat (count_list (concat ts) i) / of_nat (length ts)) else None)"
proof -
  have "map_of (pop_table ts) i
      = map_option (\<lambda>c. of_int c / of_int (int (length ts))) (map_of (fold dd_incr (concat ts) []) i)"
    unfolding pop_table_def by (simp add: map_of_map)
  then show ?thesis
    by (simp add: map_of_fold_incr get0_def)
qed

lemma count_list_distinct: "distinct xs \<Longrightarrow> count_list xs i = (if i \<in> set xs then 1 else 0)"
  by (induction xs) auto

lemma count_concat_distinct:
  "\<forall>t\<in>set ts. distinct t \<Longrightarrow> count_list (concat ts) i = length (filter (\<lambda>t. i \<in> set t) ts)"
  by (induction ts) (simp_all add: count_list_distinct)

text \<open>
  C3, as the code has it. \<open>item_counts\<close> is incremented once for every position of a
  transaction, so for a non-empty transaction list the popularity of an item is the number of
  its occurrences over all transactions, repeats within one transaction included, divided by
  the number of transactions, and it is positive; the items of the table are those occurring
  in a transaction. When no transaction repeats an item, this is the number of transactions
  containing the item divided by the number of transactions, and it is at most 1.
\<close>

theorem train_popularity_fraction:
  assumes "ts \<noteq> []"
  shows "\<exists>pop. item_popularity (snd (train ts s)) = Some pop
     \<and> (\<forall>i. map_of pop i =
              (if i \<in> set (concat ts)
               then Some (of_nat (count_list (concat ts) i) / of_nat (length ts)) else None))
     \<and> (\<forall>i v. map_of pop i = Some v \<longrightarrow> 0 < v)
     \<and> ((\<forall>t\<in>set ts. distinct t) \<longrightarrow>
          (\<forall>i v. map_of pop i = Some v \<longrightarrow>
             v = of_nat (length (filter (\<lambda>t. i \<in> set t) ts)) / of_nat (length ts) \<and> v \<le> 1))"
proof -
  let ?n = "of_nat (length ts) :: rat"
  have n_pos: "0 < ?n"
    using assms by simp
  have positive: "0 < v" if "map_of (pop_table ts) i = Some v" for i v
  proof -
    have mem: "i \<in> set (concat ts)" and v: "v = of_nat (count_list (concat ts) i) / ?n"
      using that unfolding map_of_pop_table by (simp_all split: if_splits)
    have "count_list (concat ts) i \<noteq> 0"
      using mem by (simp add: count_list_0_iff)
    then have "0 < (of_nat (count_list (concat ts) i) :: rat)"
      by simp
    then show ?thesis
      using n_pos v by simp
  qed
  have fraction: "v = of_nat (length (filter (\<lambda>t. i \<in> set t) ts)) / ?n \<and> v \<le> 1"
    if dist: "\<forall>t\<in>set ts. distinct t" and look: "map_of (pop_table ts) i = Some v" for i v
  proof -
    have v: "v = of_nat (count_list (concat ts) i) / ?n"
      using look unfolding map_of_pop_table by (simp split: if_splits)
    have eq: "count_list (concat ts) i = length (filter (\<lambda>t. i \<in> set t) ts)"
      using dist by (rule count_concat_distinct)
    have "length (filter (\<lambda>t. i \<in> set t) ts) \<le> length ts"
      by (rule length_filter_le)
    then have "(of_nat (length (filter (\<lambda>t. i \<in> set t) ts)) :: rat) \<le> ?n"
      by simp
    then have "of_nat (length (filter (\<lambda>t. i \<in> set t) ts)) / ?n \<le> 1"
      using n_pos by simp
    then show ?thesis
      using v eq by simp
  qed
  show ?thesis
    using train_popularity [of ts s] map_of_pop_table [of ts] positive fraction by blast
qed

theorem train_popularity_fraction_witness:
  "[[1, 2], [2::int]] \<noteq> [] \<and> distinct [1, 2::int] \<and> distinct [2::int]
     \<and> (\<exists>pop. item_popularity (snd (train [[1, 2], [2]] init)) = Some pop
            \<and> map_of pop 1 = Some (1 / 2) \<and> map_of pop 2 = Some 1)"
proof -
  have ne: "[[1, 2], [2::int]] \<noteq> []"
    by simp
  have dist: "\<forall>t\<in>set [[1, 2], [2::int]]. distinct t"
    by simp
  obtain pop where pop: "item_popularity (snd (train [[1, 2], [2]] init)) = Some pop"
    and frac: "\<forall>i v. map_of pop i = Some v \<longrightarrow>
             v = of_nat (length (filter (\<lambda>t. i \<in> set t) [[1, 2], [2::int]]))
                   / of_nat (length [[1, 2], [2::int]]) \<and> v \<le> 1"
    and dom: "\<forall>i. map_of pop i =
              (if i \<in> set (concat [[1, 2], [2::int]])
               then Some (of_nat (count_list (concat [[1, 2], [2]]) i) / of_nat (length [[1, 2], [2::int]])) else None)"
    using train_popularity_fraction [OF ne, of init] dist by blast
  have "map_of pop 1 = Some (1 / 2)" "map_of pop 2 = Some 1"
    using dom by simp_all
  then show ?thesis
    using pop by simp
qed

text \<open>
  An item repeated within a transaction is counted once per occurrence: after training on
  the single transaction \<open>[1, 1]\<close> the popularity of item 1 is 2, above 1, although one
  transaction of one contains it.
\<close>

theorem popularity_counts_repeats:
  "item_popularity (snd (train [[1, 1]] init)) = Some [(1, 2)] \<and> \<not> (2::rat) \<le> 1"
  by code_simp

subsection \<open>Rounding to the nearest double\<close>


























subsection \<open>Stable descending sort and slices\<close>

lemma sorted_desc_nonincreasing:
  fixes f :: "'a \<Rightarrow> 'k::linordered_ab_group_add"
  shows "sorted_wrt (\<lambda>a b. f b \<le> f a) (sorted_desc f xs)"
proof -
  have "sorted (map (\<lambda>x. - f x) (sort_key (\<lambda>x. - f x) xs))"
    by (rule sorted_sort_key)
  then show ?thesis
    unfolding sorted_desc_def sorted_map by simp
qed

lemma set_sorted_desc: "set (sorted_desc f xs) = set xs"
  unfolding sorted_desc_def by simp

lemma length_sorted_desc: "length (sorted_desc f xs) = length xs"
  unfolding sorted_desc_def by simp

lemma slice_to_take: "slice_to k xs = take (slice_len k (length xs)) xs"
  unfolding slice_to_def slice_len_def by simp

lemma sorted_wrt_slice: "sorted_wrt P xs \<Longrightarrow> sorted_wrt P (slice_to k xs)"
  unfolding slice_to_take by (rule sorted_wrt_take)

lemma set_slice_subset: "set (slice_to k xs) \<subseteq> set xs"
  unfolding slice_to_take by (rule set_take_subset)


lemma sorted_wrt_take_drop:
  assumes "sorted_wrt P xs" "x \<in> set (take n xs)" "y \<in> set (drop n xs)"
  shows "P x y"
proof -
  have "sorted_wrt P (take n xs @ drop n xs)"
    using assms(1) by simp
  then show ?thesis
    using assms(2,3) unfolding sorted_wrt_append by blast
qed

lemma outside_slice:
  assumes "sorted_wrt P xs" "y \<in> set xs" "y \<notin> set (slice_to k xs)" "x \<in> set (slice_to k xs)"
  shows "P x y"
proof -
  let ?n = "slice_len k (length xs)"
  have "set xs = set (take ?n xs) \<union> set (drop ?n xs)"
    by (metis append_take_drop_id set_append)
  then have "y \<in> set (drop ?n xs)"
    using assms(2,3) unfolding slice_to_take by blast
  then show ?thesis
    using assms(1,4) unfolding slice_to_take by (rule sorted_wrt_take_drop [rotated 2])
qed

lemma distinct_map_sorted_desc: "distinct (map g (sorted_desc f xs)) = distinct (map g xs)"
  unfolding sorted_desc_def distinct_map by simp

lemma length_slice: "length (slice_to k xs) = min (slice_len k (length xs)) (length xs)"
  unfolding slice_to_take by simp

lemma distinct_map_slice: "distinct (map g xs) \<Longrightarrow> distinct (map g (slice_to k xs))"
  unfolding slice_to_take take_map [symmetric] by (rule distinct_take)

lemma map_fst_floats: "map fst (floats pop) = map fst pop"
  unfolding floats_def by (simp add: comp_def)

lemma length_floats: "length (floats pop) = length pop"
  unfolding floats_def by simp

subsection \<open>Order completion on an empty order\<close>

lemma popular_result:
  assumes "is_fitted s" "item_popularity s = Some pop"
  shows "recommend_items_for_order [] top_k s
           = (Inr (map popular_rec (slice_to top_k (sorted_desc snd (floats pop)))), s)"
  using assms unfolding recommend_items_for_order_def by simp

text \<open>
  C9, as the code has it. On a fitted engine, \<open>recommend_items_for_order\<close> with an empty
  order returns the slice \<open>[:top_k]\<close> of the items of the popularity table sorted by
  non-increasing popularity (the doubles Python holds), each tagged \<open>popular\<close> with its
  popularity as score. For \<open>top_k \<ge> 0\<close> these are \<open>min top_k n\<close> of the \<open>n\<close> items, for a negative
  \<open>top_k\<close> all but the last \<open>- top_k\<close>. The returned items are pairwise distinct and in order
  of non-increasing popularity, and every item of the table that is not returned has a
  popularity no greater than that of every returned entry. The keys of the table are
  distinct, as those of every \<open>dict\<close>.
\<close>

theorem empty_order_most_popular:
  assumes "is_fitted s" "item_popularity s = Some pop" "distinct (map fst pop)"
  shows "\<exists>recs. recommend_items_for_order [] top_k s = (Inr recs, s)
     \<and> map (\<lambda>r. (order_item r, score r)) recs
         = slice_to top_k (sorted_desc snd (floats pop))
     \<and> length recs = min (slice_len top_k (length pop)) (length pop)
     \<and> distinct (map order_item recs)
     \<and> sorted_wrt (\<lambda>a b. score b \<le> score a) recs
     \<and> (\<forall>r\<in>set recs. reason r = ''popular'' \<and> (order_item r, score r) \<in> set (floats pop))
     \<and> (\<forall>p\<in>set (floats pop). fst p \<notin> order_item ` set recs
            \<longrightarrow> (\<forall>r\<in>set recs. snd p \<le> score r))"
proof -
  let ?sorted = "sorted_desc snd (floats pop)"
  let ?chosen = "slice_to top_k ?sorted"
  let ?recs = "map popular_rec ?chosen"
  have pair_of: "(order_item (popular_rec p), score (popular_rec p)) = p" for p
    unfolding popular_rec_def by (cases p) simp
  have item_of: "order_item (popular_rec p) = fst p" for p
    unfolding popular_rec_def by (cases p) simp
  have tag: "reason (popular_rec p) = ''popular''" for p
    unfolding popular_rec_def by (cases p) simp
  have sc: "score (popular_rec p) = snd p" for p
    unfolding popular_rec_def by (cases p) simp
  have pairs: "map (\<lambda>r. (order_item r, score r)) ?recs = ?chosen"
    by (simp add: comp_def pair_of)
  have len: "length ?recs = min (slice_len top_k (length pop)) (length pop)"
    by (simp add: length_slice length_sorted_desc length_floats)
  have "distinct (map fst ?sorted)"
    unfolding distinct_map_sorted_desc map_fst_floats by (rule assms(3))
  then have "distinct (map fst ?chosen)"
    by (rule distinct_map_slice)
  then have dist: "distinct (map order_item ?recs)"
    by (simp add: comp_def item_of)
  have sorted_all: "sorted_wrt (\<lambda>a b. snd b \<le> snd a) ?sorted"
    by (rule sorted_desc_nonincreasing)
  have "sorted_wrt (\<lambda>a b. snd b \<le> snd a) ?chosen"
    using sorted_all by (rule sorted_wrt_slice)
  then have sorted_recs: "sorted_wrt (\<lambda>a b. score b \<le> score a) ?recs"
    unfolding sorted_wrt_map sc .
  have chosen_sub: "set ?chosen \<subseteq> set (floats pop)"
    using set_slice_subset [of top_k ?sorted] unfolding set_sorted_desc .
  have members: "\<forall>r\<in>set ?recs. reason r = ''popular'' \<and> (order_item r, score r) \<in> set (floats pop)"
    using chosen_sub by (auto simp: pair_of tag)
  have top: "snd p \<le> score r"
    if p_in: "p \<in> set (floats pop)" and p_out: "fst p \<notin> order_item ` set ?recs"
      and r_in: "r \<in> set ?recs" for p r
  proof -
    obtain q where q: "q \<in> set ?chosen" "r = popular_rec q"
      using r_in by auto
    have p_sorted: "p \<in> set ?sorted"
      using p_in unfolding set_sorted_desc .
    have p_not: "p \<notin> set ?chosen"
    proof
      assume "p \<in> set ?chosen"
      then have "order_item (popular_rec p) \<in> order_item ` set ?recs"
        by simp
      then show False
        using p_out unfolding item_of by simp
    qed
    have "snd p \<le> snd q"
      by (rule outside_slice [OF sorted_all p_sorted p_not q(1)])
    then show ?thesis
      unfolding q(2) sc .
  qed
  show ?thesis
    using popular_result [OF assms(1,2), of top_k] pairs len dist sorted_recs members top
    by blast
qed

theorem empty_order_most_popular_witness:
  "is_fitted (snd (train [[1, 2], [2], [2, 3], [3]] init))
     \<and> item_popularity (snd (train [[1, 2], [2], [2, 3], [3]] init))
         = Some [(1, 1 / 4), (2, 3 / 4), (3, 1 / 2)]
     \<and> distinct (map fst [(1::int, 1 / 4 :: rat), (2, 3 / 4), (3, 1 / 2)])
     \<and> (\<exists>recs. fst (recommend_items_for_order [] 2 (snd (train [[1, 2], [2], [2, 3], [3]] init)))
                  = Inr recs
            \<and> map (\<lambda>r. (order_item r, score r)) recs = [(2, 3 / 4), (3, 1 / 2)]
            \<and> length recs = 2 \<and> reason (hd recs) = ''popular'')"
proof -
  let ?s = "snd (train [[1, 2], [2], [2, 3], [3]] init)"
  let ?P = "[(1::int, 1 / 4 :: rat), (2, 3 / 4), (3, 1 / 2)]"
  have fitted: "is_fitted ?s"
    by code_simp
  have pop: "item_popularity ?s = Some ?P"
    by code_simp
  have keys: "distinct (map fst ?P)"
    by simp
  have order: "slice_to 2 (sorted_desc snd (floats ?P)) = [(2, 3 / 4), (3, 1 / 2)]"
    by code_simp
  obtain recs where res: "recommend_items_for_order [] 2 ?s = (Inr recs, ?s)"
    and pairs: "map (\<lambda>r. (order_item r, score r)) recs = slice_to 2 (sorted_desc snd (floats ?P))"
    and tags: "\<forall>r\<in>set recs. reason r = ''popular'' \<and> (order_item r, score r) \<in> set (floats ?P)"
    using empty_order_most_popular [OF fitted pop keys, of 2] by blast
  have pairs2: "map (\<lambda>r. (order_item r, score r)) recs = [(2, 3 / 4), (3, 1 / 2)]"
    using pairs unfolding order .
  then have "length (map (\<lambda>r. (order_item r, score r)) recs) = 2"
    by simp
  then have len2: "length recs = 2"
    by simp
  then have "recs \<noteq> []"
    by auto
  then have "reason (hd recs) = ''popular''"
    using tags by simp
  then show ?thesis
    using fitted pop res pairs2 len2 by simp
qed

text \<open>
  With \<open>top_k = -1\<close> the slice drops the last of the three sorted items and two entries are
  returned, more than \<open>top_k\<close>.
\<close>

theorem negative_top_k_returns_more:
  "fst (recommend_items_for_order [] (- 1) (snd (train [[1, 2], [2], [2, 3], [3]] init)))
     = Inr [\<lparr>order_item = 2, score = 3 / 4, reason = ''popular''\<rparr>,
            \<lparr>order_item = 3, score = 1 / 2, reason = ''popular''\<rparr>]
   \<and> \<not> (2::int) \<le> - 1"
  by code_simp

subsection \<open>Cross-sell opportunities\<close>

lemma related_fitted:
  "recommend_related_items item k m s = (Inr related, s1) \<Longrightarrow> is_fitted s"
  unfolding recommend_related_items_def by (simp split: if_splits)

lemma truncate_cross_sell: "recommendation.truncate (cross_sell_of (i, r)) = r"
  unfolding cross_sell_of_def recommendation.truncate_def by simp

lemma map_truncate_cross_sell:
  "map recommendation.truncate (map cross_sell_of (enumerate n rs)) = rs"
proof (induction rs arbitrary: n)
  case Nil
  show ?case by simp
next
  case (Cons r rs)
  then show ?case by (simp add: truncate_cross_sell)
qed

text \<open>
  C10. \<open>get_cross_sell_opportunities\<close> keeps the order of the related-items query it
  calls (with \<open>top_k * 2\<close> candidates and support 3): stripped of the two added fields, its
  result is the slice \<open>[:top_k]\<close> of that query's result. It is not sorted again by
  \<open>cross_sell_potential\<close>: on a trained engine a later entry can have a strictly greater
  potential than an earlier one.
\<close>

theorem cross_sell_keeps_related_order:
  "(\<forall>s item top_k related s1.
      recommend_related_items item (top_k * 2) 3 s = (Inr related, s1) \<longrightarrow>
      (\<exists>ops. get_cross_sell_opportunities item top_k s = (Inr ops, s1)
           \<and> map recommendation.truncate ops = slice_to top_k related))
   \<and> (\<exists>ts item top_k ops i j.
        fst (get_cross_sell_opportunities item top_k (snd (train ts init))) = Inr ops
        \<and> i < j \<and> j < length ops
        \<and> cross_sell_potential (ops ! i) < cross_sell_potential (ops ! j))"
proof (intro conjI allI impI)
  fix s item top_k related s1
  assume rel: "recommend_related_items item (top_k * 2) 3 s = (Inr related, s1)"
  have "is_fitted s"
    using rel by (rule related_fitted)
  then have "get_cross_sell_opportunities item top_k s
      = (Inr (map cross_sell_of (enumerate 0 (slice_to top_k related))), s1)"
    unfolding get_cross_sell_opportunities_def using rel by simp
  then show "\<exists>ops. get_cross_sell_opportunities item top_k s = (Inr ops, s1)
           \<and> map recommendation.truncate ops = slice_to top_k related"
    using map_truncate_cross_sell [of 0 "slice_to top_k related"] by simp
next
  let ?ts = "[[1, 2], [1, 2], [1, 2], [1, 3], [1, 3], [1, 3], [3], [3::int]]"
  let ?res = "fst (get_cross_sell_opportunities 1 5 (snd (train ?ts init)))"
  have potentials: "map cross_sell_potential (projr ?res) = [fl (1518 / 10), fl (2518 / 10)]"
    by code_simp
  have ok: "isl ?res = False"
    by code_simp
  have later: "fl (1518 / 10) < fl (2518 / 10)"
    by code_simp
  obtain ops where ops: "?res = Inr ops"
    using ok by (cases ?res) auto
  have pots: "map cross_sell_potential ops = [fl (1518 / 10), fl (2518 / 10)]"
    using potentials unfolding ops by simp
  then have "length (map cross_sell_potential ops) = 2"
    by simp
  then have len: "1 < length ops"
    by simp
  have len0: "0 < length ops"
    using len by auto
  have "cross_sell_potential (ops ! 0) = map cross_sell_potential ops ! 0"
       "cross_sell_potential (ops ! 1) = map cross_sell_potential ops ! 1"
    using nth_map [OF len0, of cross_sell_potential] nth_map [OF len, of cross_sell_potential]
    by simp_all
  then have "cross_sell_potential (ops ! 0) < cross_sell_potential (ops ! 1)"
    unfolding pots using later by simp
  then have "?res = Inr ops \<and> (0::nat) < 1 \<and> 1 < length ops
      \<and> cross_sell_potential (ops ! 0) < cross_sell_potential (ops ! 1)"
    using ops len by simp
  then show "\<exists>ts item top_k ops i j.
        fst (get_cross_sell_opportunities item top_k (snd (train ts init))) = Inr ops
        \<and> i < j \<and> j < length ops
        \<and> cross_sell_potential (ops ! i) < cross_sell_potential (ops ! j)"
    by blast
qed

theorem cross_sell_keeps_related_order_witness:
  "fst (recommend_related_items 1 (1 * 2) 3
          (snd (train [[1, 2], [1, 2], [1, 2], [1, 3], [1, 3], [1, 3], [3], [3]] init)))
     = Inr [\<lparr>menu_item_id = 2, cooccurrence_count = 3, popularity_score = 3 / 8,
              recommendation_score = 81 / 2\<rparr>,
            \<lparr>menu_item_id = 3, cooccurrence_count = 3, popularity_score = 5 / 8,
              recommendation_score = 131 / 2\<rparr>]
   \<and> map menu_item_id
        (projr (fst (get_cross_sell_opportunities 1 1
          (snd (train [[1, 2], [1, 2], [1, 2], [1, 3], [1, 3], [1, 3], [3], [3]] init)))))
     = [2]"
proof -
  let ?s = "snd (train [[1, 2], [1, 2], [1, 2], [1, 3], [1, 3], [1, 3], [3], [3]] init)"
  let ?related = "[\<lparr>menu_item_id = 2, cooccurrence_count = 3, popularity_score = 3 / 8,
              recommendation_score = 81 / 2\<rparr>,
            \<lparr>menu_item_id = 3, cooccurrence_count = 3, popularity_score = 5 / 8,
              recommendation_score = 131 / 2\<rparr>]"
  have rel: "fst (recommend_related_items 1 (1 * 2) 3 ?s) = Inr ?related"
    by code_simp
  have "snd (recommend_related_items 1 (1 * 2) 3 ?s) = ?s"
    by (rule related_keeps_engine)
  then have run: "recommend_related_items 1 (1 * 2) 3 ?s = (Inr ?related, ?s)"
    using rel by (simp add: prod_eq_iff)
  obtain ops where ops: "get_cross_sell_opportunities 1 1 ?s = (Inr ops, ?s)"
    and same: "map recommendation.truncate ops = slice_to 1 ?related"
    using cross_sell_keeps_related_order run by blast
  have "map menu_item_id (map recommendation.truncate ops) = [2]"
    unfolding same by (simp add: slice_to_def)
  then have "map menu_item_id ops = [2]"
    by (simp add: recommendation.truncate_def comp_def)
  then show ?thesis
    using rel ops by simp
qed

subsection \<open>The invariants of the co-occurrence table\<close>

lemma set_update_subset: "set (AList.update k v al) \<subseteq> insert (k, v) (set al)"
  by (induction al) auto

lemma get0_nonneg:
  assumes "inner_ok d"
  shows "0 \<le> get0 d b"
proof (cases "map_of d b")
  case None
  then show ?thesis by (simp add: get0_def)
next
  case (Some n)
  then have "(b, n) \<in> set d" by (rule map_of_SomeD)
  then have "1 \<le> n" using assms unfolding inner_ok_def by auto
  then show ?thesis using Some by (simp add: get0_def)
qed

lemma inner_ok_incr:
  assumes "inner_ok d"
  shows "inner_ok (dd_incr b d)"
proof -
  have eq: "dd_incr b d = AList.update b (get0 d b + 1) d"
    unfolding dd_incr_def by (rule dd_add_update)
  have dist: "distinct (map fst (AList.update b (get0 d b + 1) d))"
    using assms unfolding inner_ok_def by (simp add: distinct_update)
  have new: "1 \<le> get0 d b + 1"
    using get0_nonneg [OF assms, of b] by simp
  have "\<forall>p\<in>set (AList.update b (get0 d b + 1) d). 1 \<le> snd p"
    using set_update_subset [of b "get0 d b + 1" d] new assms unfolding inner_ok_def by auto
  then show ?thesis
    unfolding eq inner_ok_def using dist by simp
qed

lemma inner_of_ok:
  assumes "table_ok c"
  shows "inner_ok (inner_of c a)"
proof (cases "map_of c a")
  case None
  then show ?thesis by (simp add: inner_of_def inner_ok_def)
next
  case (Some d)
  then have "(a, d) \<in> set c" by (rule map_of_SomeD)
  then have "inner_ok d" using assms unfolding table_ok_def by auto
  then show ?thesis using Some by (simp add: inner_of_def)
qed

lemma table_ok_incr:
  assumes "table_ok c"
  shows "table_ok (cooc_incr a b c)"
proof -
  have new: "inner_ok (dd_incr b (inner_of c a))"
    using inner_of_ok [OF assms] by (rule inner_ok_incr)
  show ?thesis
    unfolding cooc_incr_update table_ok_def
    using set_update_subset [of a "dd_incr b (inner_of c a)" c] new assms
    unfolding table_ok_def by auto
qed

lemma table_ok_fold_incr:
  "table_ok c \<Longrightarrow>
   table_ok (fold (\<lambda>(item1, item2) c. cooc_incr item2 item1 (cooc_incr item1 item2 c)) ps c)"
proof (induction ps arbitrary: c)
  case Nil
  then show ?case by simp
next
  case (Cons p ps)
  obtain x y where p: "p = (x, y)" by (cases p)
  have "table_ok (cooc_incr y x (cooc_incr x y c))"
    using Cons.prems by (intro table_ok_incr)
  then show ?case
    using Cons.IH by (simp add: p)
qed

lemma table_ok_fold_pairs: "table_ok c \<Longrightarrow> table_ok (fold count_pairs ts c)"
proof (induction ts arbitrary: c)
  case Nil
  then show ?case by simp
next
  case (Cons t ts)
  have "table_ok (count_pairs t c)"
    unfolding count_pairs_def using Cons.prems by (rule table_ok_fold_incr)
  then show ?case
    using Cons.IH by simp
qed

lemma table_ok_train: "table_ok (fold count_pairs ts [])"
proof -
  have "table_ok []" by (simp add: table_ok_def)
  then show ?thesis by (rule table_ok_fold_pairs)
qed

lemma inner_member_count:
  assumes "table_ok c" "p \<in> set (inner_of c a)"
  shows "cooc_count c a (fst p) = snd p" "1 \<le> snd p"
proof -
  have ok: "inner_ok (inner_of c a)"
    using assms(1) by (rule inner_of_ok)
  then have "distinct (map fst (inner_of c a))"
    unfolding inner_ok_def by simp
  then have "map_of (inner_of c a) (fst p) = Some (snd p)"
    using assms(2) by simp
  then show "cooc_count c a (fst p) = snd p"
    unfolding cooc_count_inner get0_def by simp
  show "1 \<le> snd p"
    using ok assms(2) unfolding inner_ok_def by simp
qed

lemma count_member_inner:
  assumes "1 \<le> cooc_count c a b"
  shows "(b, cooc_count c a b) \<in> set (inner_of c a)"
proof (cases "map_of (inner_of c a) b")
  case None
  then show ?thesis using assms unfolding cooc_count_inner get0_def by simp
next
  case (Some n)
  then have "(b, n) \<in> set (inner_of c a)" by (rule map_of_SomeD)
  then show ?thesis using Some unfolding cooc_count_inner get0_def by simp
qed

lemma keys_dd_incr: "fst ` set (dd_incr b d) \<subseteq> insert b (fst ` set d)"
proof -
  have "dd_incr b d = AList.update b (get0 d b + 1) d"
    unfolding dd_incr_def by (rule dd_add_update)
  then show ?thesis
    by (simp add: dom_update)
qed

lemma keys_in_incr:
  assumes "keys_in A c" "b \<in> A"
  shows "keys_in A (cooc_incr a b c)"
proof -
  have old: "fst ` set (inner_of c a) \<subseteq> A"
  proof (cases "map_of c a")
    case None
    then show ?thesis by (simp add: inner_of_def)
  next
    case (Some d)
    then have "(a, d) \<in> set c" by (rule map_of_SomeD)
    then show ?thesis
      using assms(1) Some unfolding keys_in_def inner_of_def by fastforce
  qed
  have new: "fst ` set (dd_incr b (inner_of c a)) \<subseteq> A"
    using keys_dd_incr [of b "inner_of c a"] old assms(2) by blast
  have "fst ` set (snd e) \<subseteq> A" if "e \<in> set (AList.update a (dd_incr b (inner_of c a)) c)" for e
  proof -
    have "e = (a, dd_incr b (inner_of c a)) \<or> e \<in> set c"
      using that set_update_subset [of a "dd_incr b (inner_of c a)" c] by blast
    then show ?thesis
    proof
      assume "e = (a, dd_incr b (inner_of c a))"
      then show ?thesis using new by simp
    next
      assume "e \<in> set c"
      then show ?thesis using assms(1) unfolding keys_in_def by blast
    qed
  qed
  then show ?thesis
    unfolding cooc_incr_update keys_in_def by blast
qed

lemma combinations2_subset: "set (combinations2 t) \<subseteq> set t \<times> set t"
  by (induction t) auto

lemma keys_in_fold_incr:
  assumes "keys_in A c" "set ps \<subseteq> A \<times> A"
  shows "keys_in A (fold (\<lambda>(item1, item2) c. cooc_incr item2 item1 (cooc_incr item1 item2 c)) ps c)"
  using assms
proof (induction ps arbitrary: c)
  case Nil
  then show ?case by simp
next
  case (Cons p ps)
  obtain x y where p: "p = (x, y)" by (cases p)
  have xy: "x \<in> A" "y \<in> A"
    using Cons.prems(2) unfolding p by simp_all
  have "keys_in A (cooc_incr x y c)"
    using Cons.prems(1) xy(2) by (rule keys_in_incr)
  then have "keys_in A (cooc_incr y x (cooc_incr x y c))"
    using xy(1) by (rule keys_in_incr)
  moreover have "set ps \<subseteq> A \<times> A"
    using Cons.prems(2) by simp
  ultimately show ?case
    using Cons.IH by (simp add: p)
qed

lemma keys_in_fold_pairs:
  assumes "keys_in A c" "set (concat ts) \<subseteq> A"
  shows "keys_in A (fold count_pairs ts c)"
  using assms
proof (induction ts arbitrary: c)
  case Nil
  then show ?case by simp
next
  case (Cons t ts)
  have "set t \<subseteq> A"
    using Cons.prems(2) by simp
  then have "set (combinations2 t) \<subseteq> A \<times> A"
    using combinations2_subset [of t] by blast
  then have "keys_in A (count_pairs t c)"
    unfolding count_pairs_def using Cons.prems(1) by (intro keys_in_fold_incr)
  moreover have "set (concat ts) \<subseteq> A"
    using Cons.prems(2) by simp
  ultimately show ?case
    using Cons.IH by simp
qed

lemma keys_in_train: "keys_in (set (concat ts)) (fold count_pairs ts [])"
proof -
  have "keys_in (set (concat ts)) []"
    by (simp add: keys_in_def)
  then show ?thesis
    by (rule keys_in_fold_pairs) simp
qed

lemma inner_keys:
  assumes "keys_in A c" "p \<in> set (inner_of c a)"
  shows "fst p \<in> A"
proof (cases "map_of c a")
  case None
  then show ?thesis using assms(2) by (simp add: inner_of_def)
next
  case (Some d)
  then have "(a, d) \<in> set c" by (rule map_of_SomeD)
  then show ?thesis
    using assms Some unfolding keys_in_def inner_of_def by fastforce
qed

lemma map_of_floats: "map_of (floats pop) i = map_option fl (map_of pop i)"
  unfolding floats_def by (induction pop) auto

subsection \<open>Related items\<close>

lemma slice_to_Nil: "slice_to k [] = []"
  unfolding slice_to_def by simp

lemma related_result:
  assumes "is_fitted s" "item_cooccurrence s = Some c" "item_popularity s = Some pop"
  shows "recommend_related_items item k m s
           = (Inr (map (related_rec (floats pop)) (slice_to k (candidates c item m))), s)"
proof -
  have flt: "(\<lambda>(k, v). m \<le> v) = (\<lambda>p. m \<le> snd p)"
    by (auto simp: fun_eq_iff)
  have "fst (recommend_related_items item k m s)
          = Inr (map (related_rec (floats pop)) (slice_to k (candidates c item m)))"
  proof (cases "map_of c item")
    case None
    then show ?thesis
      using assms unfolding recommend_related_items_def candidates_def inner_of_def
      by (simp add: sorted_desc_def slice_to_Nil)
  next
    case (Some d)
    then show ?thesis
      using assms unfolding recommend_related_items_def candidates_def inner_of_def dd_getitem_def
      by (simp add: flt)
  qed
  then show ?thesis
    using related_keeps_engine [of item k m s] by (simp add: prod_eq_iff)
qed

lemma set_candidates:
  "set (candidates c item m) = {p \<in> set (inner_of c item). m \<le> snd p}"
  unfolding candidates_def set_sorted_desc by simp

lemma candidates_sorted: "sorted_wrt (\<lambda>a b. snd b \<le> snd a) (candidates c item m)"
  unfolding candidates_def by (rule sorted_desc_nonincreasing)

lemma candidates_distinct:
  assumes "table_ok c"
  shows "distinct (map fst (candidates c item m))"
proof -
  have "distinct (map fst (inner_of c item))"
    using inner_of_ok [OF assms, of item] unfolding inner_ok_def by simp
  then have "distinct (map fst (filter (\<lambda>p. m \<le> snd p) (inner_of c item)))"
    by (rule distinct_map_filter)
  then show ?thesis
    unfolding candidates_def distinct_map_sorted_desc .
qed

lemma candidates_keys:
  assumes "table_ok c"
  shows "fst ` set (candidates c item m)
           = {p. 1 \<le> cooc_count c item p \<and> m \<le> cooc_count c item p}"
proof (intro set_eqI iffI)
  fix p
  assume "p \<in> fst ` set (candidates c item m)"
  then obtain e where e: "e \<in> set (inner_of c item)" "m \<le> snd e" "p = fst e"
    unfolding set_candidates by auto
  show "p \<in> {p. 1 \<le> cooc_count c item p \<and> m \<le> cooc_count c item p}"
    using inner_member_count [OF assms e(1)] e(2,3) by simp
next
  fix p
  assume "p \<in> {p. 1 \<le> cooc_count c item p \<and> m \<le> cooc_count c item p}"
  then have pos: "1 \<le> cooc_count c item p" and sup: "m \<le> cooc_count c item p"
    by simp_all
  have "(p, cooc_count c item p) \<in> set (inner_of c item)"
    using pos by (rule count_member_inner)
  then have "(p, cooc_count c item p) \<in> set (candidates c item m)"
    unfolding set_candidates using sup by simp
  then show "p \<in> fst ` set (candidates c item m)"
    by force
qed

lemma candidates_card:
  assumes "table_ok c"
  shows "card {p. 1 \<le> cooc_count c item p \<and> m \<le> cooc_count c item p}
           = length (candidates c item m)"
proof -
  have "card (set (map fst (candidates c item m))) = length (map fst (candidates c item m))"
    using candidates_distinct [OF assms] by (rule distinct_card)
  then show ?thesis
    using candidates_keys [OF assms, of item m] by simp
qed

text \<open>
  C1, as the code has it. On an engine trained on any transaction list,
  \<open>recommend_related_items\<close> returns the slice \<open>[:top_k]\<close> of the partners of the item whose
  count is at least \<open>min_support\<close>, sorted by non-increasing co-occurrence count (the sort key
  of the code, ties in table order), not by the composite score. The partners returned are
  pairwise distinct; their number is \<open>min top_k n\<close> for \<open>top_k \<ge> 0\<close>, where \<open>n\<close> is the number
  of partners with enough support; and a partner with enough support that is left out has a
  count no greater than that of every returned entry. Each entry carries the count of the
  pair, the partner's popularity as Python holds it, and as score the float sum of the count
  and 100 times the popularity, rounded to three decimals by \<open>round\<close>.
\<close>

theorem related_sorted_by_count:
  "\<exists>c pop recs.
     item_cooccurrence (snd (train ts s0)) = Some c
   \<and> item_popularity (snd (train ts s0)) = Some pop
   \<and> recommend_related_items item top_k min_support (snd (train ts s0))
       = (Inr recs, snd (train ts s0))
   \<and> map (\<lambda>r. (menu_item_id r, cooccurrence_count r)) recs
       = slice_to top_k (candidates c item min_support)
   \<and> length recs
       = min (slice_len top_k
                (card {p. 1 \<le> cooc_count c item p \<and> min_support \<le> cooc_count c item p}))
             (card {p. 1 \<le> cooc_count c item p \<and> min_support \<le> cooc_count c item p})
   \<and> distinct (map menu_item_id recs)
   \<and> sorted_wrt (\<lambda>a b. cooccurrence_count b \<le> cooccurrence_count a) recs
   \<and> (\<forall>r\<in>set recs.
          cooccurrence_count r = cooc_count c item (menu_item_id r)
        \<and> 1 \<le> cooccurrence_count r \<and> min_support \<le> cooccurrence_count r
        \<and> map_of (floats pop) (menu_item_id r) = Some (popularity_score r)
        \<and> recommendation_score r
            = py_round 3 (fadd (float_of_int (cooccurrence_count r))
                               (fmul (popularity_score r) 100)))
   \<and> (\<forall>p. p \<notin> menu_item_id ` set recs \<and> 1 \<le> cooc_count c item p
            \<and> min_support \<le> cooc_count c item p \<longrightarrow>
          (\<forall>r\<in>set recs. cooc_count c item p \<le> cooccurrence_count r))"
proof -
  let ?s = "snd (train ts s0)"
  let ?c = "fold count_pairs ts []"
  let ?pop = "pop_table ts"
  let ?fp = "floats ?pop"
  let ?cand = "candidates ?c item min_support"
  let ?chosen = "slice_to top_k ?cand"
  let ?recs = "map (related_rec ?fp) ?chosen"
  let ?N = "card {p. 1 \<le> cooc_count ?c item p \<and> min_support \<le> cooc_count ?c item p}"
  have ok: "table_ok ?c"
    by (rule table_ok_train)
  have run: "recommend_related_items item top_k min_support ?s = (Inr ?recs, ?s)"
    using train_fitted train_cooc train_popularity by (rule related_result)
  have id_of: "menu_item_id (related_rec ?fp q) = fst q" for q
    unfolding related_rec_def by simp
  have cnt_of: "cooccurrence_count (related_rec ?fp q) = snd q" for q
    unfolding related_rec_def by simp
  have pair_of: "(menu_item_id (related_rec ?fp q), cooccurrence_count (related_rec ?fp q)) = q" for q
    unfolding related_rec_def by simp
  have pairs: "map (\<lambda>r. (menu_item_id r, cooccurrence_count r)) ?recs = ?chosen"
    by (simp add: comp_def pair_of)
  have len: "length ?recs = min (slice_len top_k ?N) ?N"
    unfolding candidates_card [OF ok] by (simp add: length_slice)
  have "distinct (map fst ?chosen)"
    using candidates_distinct [OF ok] by (rule distinct_map_slice)
  then have dist: "distinct (map menu_item_id ?recs)"
    by (simp add: comp_def id_of)
  have chosen_sub: "set ?chosen \<subseteq> set ?cand"
    by (rule set_slice_subset)
  have "sorted_wrt (\<lambda>a b. snd b \<le> snd a) ?chosen"
    using candidates_sorted by (rule sorted_wrt_slice)
  then have sorted_recs: "sorted_wrt (\<lambda>a b. cooccurrence_count b \<le> cooccurrence_count a) ?recs"
    unfolding sorted_wrt_map cnt_of .
  have chosen_facts:
    "cooc_count ?c item (fst q) = snd q \<and> 1 \<le> snd q \<and> min_support \<le> snd q
     \<and> map_of ?fp (fst q) = Some (popularity_score (related_rec ?fp q))
     \<and> recommendation_score (related_rec ?fp q)
         = py_round 3 (fadd (float_of_int (snd q)) (fmul (popularity_score (related_rec ?fp q)) 100))"
    if "q \<in> set ?chosen" for q
  proof -
    have "q \<in> set ?cand"
      using that chosen_sub by blast
    then have q_in: "q \<in> set (inner_of ?c item)" and sup: "min_support \<le> snd q"
      unfolding set_candidates by simp_all
    have "fst q \<in> set (concat ts)"
      using keys_in_train q_in by (rule inner_keys)
    then obtain v where v: "map_of ?pop (fst q) = Some v"
      unfolding map_of_pop_table by simp
    have look: "map_of ?fp (fst q) = Some (fl v)"
      unfolding map_of_floats v by simp
    have pop_of: "popularity_score (related_rec ?fp q) = fl v"
      unfolding related_rec_def get0_def using look by simp
    have score_of: "recommendation_score (related_rec ?fp q)
        = py_round 3 (fadd (float_of_int (snd q)) (fmul (fl v) 100))"
      unfolding related_rec_def using look by simp
    show ?thesis
      using inner_member_count [OF ok q_in] sup look pop_of score_of by simp
  qed
  have members: "\<forall>r\<in>set ?recs.
          cooccurrence_count r = cooc_count ?c item (menu_item_id r)
        \<and> 1 \<le> cooccurrence_count r \<and> min_support \<le> cooccurrence_count r
        \<and> map_of ?fp (menu_item_id r) = Some (popularity_score r)
        \<and> recommendation_score r
            = py_round 3 (fadd (float_of_int (cooccurrence_count r))
                               (fmul (popularity_score r) 100))"
  proof
    fix r
    assume "r \<in> set ?recs"
    then obtain q where q: "q \<in> set ?chosen" and r: "r = related_rec ?fp q"
      by auto
    show "cooccurrence_count r = cooc_count ?c item (menu_item_id r)
        \<and> 1 \<le> cooccurrence_count r \<and> min_support \<le> cooccurrence_count r
        \<and> map_of ?fp (menu_item_id r) = Some (popularity_score r)
        \<and> recommendation_score r
            = py_round 3 (fadd (float_of_int (cooccurrence_count r))
                               (fmul (popularity_score r) 100))"
      using chosen_facts [OF q] unfolding r id_of cnt_of by simp
  qed
  have top: "\<forall>r\<in>set ?recs. cooc_count ?c item p \<le> cooccurrence_count r"
    if out: "p \<notin> menu_item_id ` set ?recs"
      and pos: "1 \<le> cooc_count ?c item p" and sup: "min_support \<le> cooc_count ?c item p" for p
  proof -
    let ?e = "(p, cooc_count ?c item p)"
    have "?e \<in> set (inner_of ?c item)"
      using pos by (rule count_member_inner)
    then have e_cand: "?e \<in> set ?cand"
      unfolding set_candidates using sup by simp
    have e_out: "?e \<notin> set ?chosen"
    proof
      assume "?e \<in> set ?chosen"
      then have "menu_item_id (related_rec ?fp ?e) \<in> menu_item_id ` set ?recs"
        by simp
      then show False
        using out unfolding id_of by simp
    qed
    have "snd ?e \<le> snd q" if "q \<in> set ?chosen" for q
      by (rule outside_slice [OF candidates_sorted e_cand e_out that])
    then show ?thesis
      by (auto simp: cnt_of)
  qed
  show ?thesis
    using train_cooc [of ts s0] train_popularity [of ts s0] run pairs len dist sorted_recs
      members top
    by blast
qed

theorem related_sorted_by_count_witness:
  "\<exists>c recs.
        item_cooccurrence (snd (train [[1, 2], [1, 2], [1, 3], [3], [3], [3], [3], [3]] init))
          = Some c
      \<and> fst (recommend_related_items 1 1 1
               (snd (train [[1, 2], [1, 2], [1, 3], [3], [3], [3], [3], [3]] init))) = Inr recs
      \<and> map menu_item_id recs = [2] \<and> cooc_count c 1 3 = 1
      \<and> recommendation_score (hd recs) = 27
      \<and> cooc_count c 1 3 \<le> cooccurrence_count (hd recs)"
proof -
  let ?s = "snd (train [[1, 2], [1, 2], [1, 3], [3], [3], [3], [3], [3]] init)"
  let ?C = "[(1, [(2, 2), (3, 1)]), (2, [(1, 2)]), (3, [(1, 1)])] :: int pydict pydict"
  let ?R = "[\<lparr>menu_item_id = 2, cooccurrence_count = 2, popularity_score = 1 / 4,
              recommendation_score = 27\<rparr>]"
  have cooc: "item_cooccurrence ?s = Some ?C"
    by code_simp
  have res: "fst (recommend_related_items 1 1 1 ?s) = Inr ?R"
    by code_simp
  obtain c recs where c: "item_cooccurrence ?s = Some c"
    and run: "recommend_related_items 1 1 1 ?s = (Inr recs, ?s)"
    and top: "\<forall>p. p \<notin> menu_item_id ` set recs \<and> 1 \<le> cooc_count c 1 p
               \<and> 1 \<le> cooc_count c 1 p \<longrightarrow>
             (\<forall>r\<in>set recs. cooc_count c 1 p \<le> cooccurrence_count r)"
    using related_sorted_by_count [of "[[1, 2], [1, 2], [1, 3], [3], [3], [3], [3], [3]]" init 1 1 1]
    by blast
  have c_eq: "c = ?C"
    using c cooc by simp
  have recs_eq: "recs = ?R"
    using run res by simp
  have count13: "cooc_count c 1 3 = 1"
    unfolding c_eq by (simp add: cooc_count_def get0_def)
  have out: "3 \<notin> menu_item_id ` set recs"
    unfolding recs_eq by simp
  have pos: "1 \<le> cooc_count c 1 3"
    using count13 by simp
  have "\<forall>r\<in>set recs. cooc_count c 1 3 \<le> cooccurrence_count r"
    using top out pos by blast
  then have "cooc_count c 1 3 \<le> cooccurrence_count (hd recs)"
    unfolding recs_eq by simp
  then show ?thesis
    using c run count13 recs_eq by simp
qed

text \<open>
  The composite score is computed after the sort by count and the slice: for item 1 after
  the training below, partner 2 (count 2, popularity 0.25, score 27) precedes partner 3
  (count 1, popularity 0.75, score 76).
\<close>

theorem related_not_sorted_by_score:
  "fst (recommend_related_items 1 5 1
          (snd (train [[1, 2], [1, 2], [1, 3], [3], [3], [3], [3], [3]] init)))
     = Inr [\<lparr>menu_item_id = 2, cooccurrence_count = 2, popularity_score = 1 / 4,
              recommendation_score = 27\<rparr>,
            \<lparr>menu_item_id = 3, cooccurrence_count = 1, popularity_score = 3 / 4,
              recommendation_score = 76\<rparr>]
   \<and> \<not> (76::rat) \<le> 27"
  by code_simp

subsection \<open>Frequent bundles\<close>















end
